theory Spec2Isabelle
  imports Main "HOL-Library.Multiset"
begin

section \<open>JavaScript strings and values used by the worker\<close>

text \<open>
  The worker (\<^verbatim>\<open>src/index.ts\<close>) splits object keys with \<^verbatim>\<open>String.prototype.split\<close>,
  rejoins segments with \<^verbatim>\<open>Array.prototype.join\<close> and chooses between a tag and a
  key-derived value with \<^verbatim>\<open>||\<close>. Strings are character lists; the separators
  \<^verbatim>\<open>/\<close> and \<^verbatim>\<open>-\<close> are single ASCII characters, so splitting does not depend on
  the encoding of the other characters.
\<close>

text \<open>\<^verbatim>\<open>s.split(sep)\<close> for a one-character separator: the empty string gives one
  empty segment, and a separator at either end gives an empty segment there.\<close>

fun str_split :: "char \<Rightarrow> string \<Rightarrow> string list" where
  "str_split sep [] = [[]]"
| "str_split sep (c # cs) =
     (if c = sep then [] # str_split sep cs
      else (case str_split sep cs of
              [] \<Rightarrow> [[c]]
            | seg # segs \<Rightarrow> (c # seg) # segs))"

text \<open>\<^verbatim>\<open>parts.join(sep)\<close>.\<close>

fun str_join :: "string \<Rightarrow> string list \<Rightarrow> string" where
  "str_join sep [] = []"
| "str_join sep [s] = s"
| "str_join sep (s # t # ts) = s @ sep @ str_join sep (t # ts)"

text \<open>\<^verbatim>\<open>xs[i]\<close>: reading an array past its end gives \<^verbatim>\<open>undefined\<close> (\<open>None\<close>).\<close>

definition array_get :: "'a list \<Rightarrow> nat \<Rightarrow> 'a option" where
  "array_get xs i = (if i < length xs then Some (xs ! i) else None)"

text \<open>\<^verbatim>\<open>xs.pop()\<close>, the value returned: the last element, \<^verbatim>\<open>undefined\<close> for an
  empty array.\<close>

definition array_pop :: "'a list \<Rightarrow> 'a option" where
  "array_pop xs = (if xs = [] then None else Some (last xs))"

text \<open>\<^verbatim>\<open>a || b\<close> on values that are a string or \<^verbatim>\<open>undefined\<close>: the empty string and
  \<^verbatim>\<open>undefined\<close> are falsy. \<open>js_or\<close> is the case where \<open>b\<close> may be undefined too,
  \<open>or_else\<close> the case where \<open>b\<close> is a string.\<close>

fun js_or :: "string option \<Rightarrow> string option \<Rightarrow> string option" where
  "js_or (Some s) b = (if s = [] then b else Some s)"
| "js_or None b = b"

fun or_else :: "string option \<Rightarrow> string \<Rightarrow> string" where
  "or_else (Some s) d = (if s = [] then d else s)"
| "or_else None d = d"

text \<open>\<^verbatim>\<open>key.startsWith(prefix)\<close>: how the object store matches a listing prefix.\<close>

definition startsWith :: "string \<Rightarrow> string \<Rightarrow> bool" where
  "startsWith s pre = (take (length pre) s = pre)"

section \<open>Data model\<close>

text \<open>
  A \<^verbatim>\<open>Date\<close> holds a time value in milliseconds or is an Invalid Date.
  \<^verbatim>\<open>toISOString()\<close> throws a \<^verbatim>\<open>RangeError\<close> on an Invalid Date and \<^verbatim>\<open>getTime()\<close>
  returns \<^verbatim>\<open>NaN\<close> (\<open>None\<close>) there. The ISO-8601 text of a valid date is a one-to-one
  rendering of its time value; the model carries the time value in its place.
\<close>

datatype date = Date int | InvalidDate

datatype js_error = RangeError

fun toISOString :: "date \<Rightarrow> js_error + int" where
  "toISOString (Date t) = Inr t"
| "toISOString InvalidDate = Inl RangeError"

fun getTime :: "date \<Rightarrow> int option" where
  "getTime (Date t) = Some t"
| "getTime InvalidDate = None"

text \<open>The fields of an \<^verbatim>\<open>R2Object\<close> the worker reads. \<^verbatim>\<open>customMetadata\<close> is optional.\<close>

record r2object =
  obj_key :: string
  obj_size :: nat
  obj_uploaded :: date
  obj_customMetadata :: "(string \<rightharpoonup> string) option"

text \<open>\<^verbatim>\<open>interface ReleaseMetadata\<close>.\<close>

record release_metadata =
  product :: string
  version :: string
  platform :: string
  arch :: string
  uploadDate :: int
  md_size :: nat
  filename :: string
  checksum :: "string option"
  description :: "string option"

text \<open>\<^verbatim>\<open>interface ReleaseFile\<close>.\<close>

record release_file =
  rf_key :: string
  rf_size :: nat
  rf_uploaded :: date
  rf_metadata :: release_metadata

section \<open>parseReleaseMetadata\<close>

text \<open>\<^verbatim>\<open>object.customMetadata || {}\<close>.\<close>

definition tags_of :: "r2object \<Rightarrow> (string \<rightharpoonup> string)" where
  "tags_of object = (case obj_customMetadata object of None \<Rightarrow> Map.empty | Some m \<Rightarrow> m)"

text \<open>
  The body of \<^verbatim>\<open>parseReleaseMetadata\<close>. The only expression of the \<^verbatim>\<open>try\<close> block that
  can throw is \<^verbatim>\<open>object.uploaded.toISOString()\<close>; the \<^verbatim>\<open>catch\<close> turns that into
  \<^verbatim>\<open>null\<close> (\<open>None\<close>). The destructuring of \<^verbatim>\<open>pathParts\<close> reads indices 0 to 2 behind
  the length test. \<^verbatim>\<open>split\<close> never returns an empty array (\<open>str_split_not_Nil\<close> below),
  so the first piece of \<^verbatim>\<open>platformArch.split('-')\<close> is \<open>hd\<close>; the second may be
  \<^verbatim>\<open>undefined\<close>.
\<close>

definition parseReleaseMetadata :: "r2object \<Rightarrow> release_metadata option" where
  "parseReleaseMetadata object =
     (case toISOString (obj_uploaded object) of
        Inl err \<Rightarrow> None
      | Inr isoDate \<Rightarrow>
          (let customMetadata = tags_of object;
               pathParts = str_split CHR ''/'' (obj_key object)
           in if length pathParts < 4 then
                (let filename' =
                       or_else (array_pop (str_split CHR ''/'' (obj_key object)))
                         (obj_key object)
                 in Some \<lparr> product = or_else (customMetadata ''product'') ''unknown'',
                           version = or_else (customMetadata ''version'') ''unknown'',
                           platform = or_else (customMetadata ''platform'') ''unknown'',
                           arch = or_else (customMetadata ''arch'') ''unknown'',
                           uploadDate = isoDate,
                           md_size = obj_size object,
                           filename = filename',
                           checksum = customMetadata ''checksum'',
                           description = customMetadata ''description'' \<rparr>)
              else
                (let product' = pathParts ! 0;
                     version' = pathParts ! 1;
                     platformArch = pathParts ! 2;
                     filenameParts = drop 3 pathParts;
                     pieces = str_split CHR ''-'' platformArch;
                     platform' = hd pieces;
                     arch' = array_get pieces 1;
                     filename' = str_join ''/'' filenameParts
                 in Some \<lparr> product = or_else (customMetadata ''product'') product',
                           version = or_else (customMetadata ''version'') version',
                           platform = or_else (customMetadata ''platform'') platform',
                           arch = or_else (js_or (customMetadata ''arch'') arch') ''unknown'',
                           uploadDate = isoDate,
                           md_size = obj_size object,
                           filename = filename',
                           checksum = customMetadata ''checksum'',
                           description = customMetadata ''description'' \<rparr>)))"

section \<open>The listing endpoints\<close>

text \<open>
  The bucket is the finite sequence of objects the store holds, in the order the store
  lists them. \<^verbatim>\<open>RELEASES.list()\<close> returns all of them and
  \<^verbatim>\<open>RELEASES.list({ prefix })\<close> those whose key begins with the prefix. The handlers
  make one call and read \<^verbatim>\<open>listed.objects\<close>; a bucket larger than one page of the
  store is outside the model.
\<close>

definition bucket_list :: "string option \<Rightarrow> r2object list \<Rightarrow> r2object list" where
  "bucket_list prefix bucket =
     (case prefix of
        None \<Rightarrow> bucket
      | Some p \<Rightarrow> filter (\<lambda>object. startsWith (obj_key object) p) bucket)"

text \<open>The object literal both loops push.\<close>

definition release_entry :: "r2object \<Rightarrow> release_metadata \<Rightarrow> release_file" where
  "release_entry object metadata =
     \<lparr> rf_key = obj_key object, rf_size = obj_size object,
       rf_uploaded = obj_uploaded object, rf_metadata = metadata \<rparr>"

text \<open>The loop of \<^verbatim>\<open>GET /api/releases\<close>: \<^verbatim>\<open>if (metadata) releases.push(...)\<close>.\<close>

fun push_releases :: "r2object list \<Rightarrow> release_file list \<Rightarrow> release_file list" where
  "push_releases [] releases = releases"
| "push_releases (object # objects) releases =
     (case parseReleaseMetadata object of
        None \<Rightarrow> push_releases objects releases
      | Some metadata \<Rightarrow>
          push_releases objects (releases @ [release_entry object metadata]))"

text \<open>The loop of \<^verbatim>\<open>GET /api/releases/:product\<close>:
  \<^verbatim>\<open>if (metadata && metadata.product === product) releases.push(...)\<close>.\<close>

fun push_product_releases ::
  "string \<Rightarrow> r2object list \<Rightarrow> release_file list \<Rightarrow> release_file list" where
  "push_product_releases productParam [] releases = releases"
| "push_product_releases productParam (object # objects) releases =
     (case parseReleaseMetadata object of
        None \<Rightarrow> push_product_releases productParam objects releases
      | Some metadata \<Rightarrow>
          if product metadata = productParam
          then push_product_releases productParam objects (releases @ [release_entry object metadata])
          else push_product_releases productParam objects releases)"

text \<open>
  The comparator \<^verbatim>\<open>(a, b) => b.uploaded.getTime() - a.uploaded.getTime()\<close>; the
  difference is \<^verbatim>\<open>NaN\<close> (\<open>None\<close>) when either date is invalid. Time values are
  integers of magnitude at most 8.64e15, so the sign of the double difference is the
  sign of the integer difference.
\<close>

definition compare_uploaded :: "release_file \<Rightarrow> release_file \<Rightarrow> int option" where
  "compare_uploaded a b =
     (case (getTime (rf_uploaded b), getTime (rf_uploaded a)) of
        (Some tb, Some ta) \<Rightarrow> Some (tb - ta)
      | _ \<Rightarrow> None)"

text \<open>
  \<^verbatim>\<open>Array.prototype.sort(comparefn)\<close>. ECMAScript reads a \<^verbatim>\<open>NaN\<close> result of the
  comparator as \<open>+0\<close>, requires the sort to be stable, and for a consistent comparator
  fixes the result: the stable arrangement in comparator order. Insertion from the right
  computes that arrangement: an element goes in front of the first element it does not
  follow, so it stays in front of later elements that compare equal.
\<close>

definition sort_compare :: "('a \<Rightarrow> 'a \<Rightarrow> int option) \<Rightarrow> 'a \<Rightarrow> 'a \<Rightarrow> int" where
  "sort_compare comparefn x y = (case comparefn x y of None \<Rightarrow> 0 | Some v \<Rightarrow> v)"

fun sort_insert :: "('a \<Rightarrow> 'a \<Rightarrow> int option) \<Rightarrow> 'a \<Rightarrow> 'a list \<Rightarrow> 'a list" where
  "sort_insert comparefn x [] = [x]"
| "sort_insert comparefn x (y # ys) =
     (if sort_compare comparefn x y \<le> 0 then x # y # ys
      else y # sort_insert comparefn x ys)"

definition array_sort :: "('a \<Rightarrow> 'a \<Rightarrow> int option) \<Rightarrow> 'a list \<Rightarrow> 'a list" where
  "array_sort comparefn xs = foldr (sort_insert comparefn) xs []"

text \<open>The JSON body of a successful listing: \<^verbatim>\<open>{ count: releases.length, releases }\<close>.\<close>

record releases_response =
  resp_count :: nat
  resp_releases :: "release_file list"

text \<open>\<^verbatim>\<open>app.get('/api/releases')\<close>, given the bucket.\<close>

definition get_api_releases :: "r2object list \<Rightarrow> releases_response" where
  "get_api_releases bucket =
     (let listed = bucket_list None bucket;
          releases = array_sort compare_uploaded (push_releases listed [])
      in \<lparr> resp_count = length releases, resp_releases = releases \<rparr>)"

text \<open>\<^verbatim>\<open>app.get('/api/releases/:product')\<close>, given the bucket and the route parameter.\<close>

definition get_api_releases_product :: "string \<Rightarrow> r2object list \<Rightarrow> releases_response" where
  "get_api_releases_product productParam bucket =
     (let listed = bucket_list (Some (productParam @ ''/'')) bucket;
          releases = array_sort compare_uploaded (push_product_releases productParam listed [])
      in \<lparr> resp_count = length releases, resp_releases = releases \<rparr>)"


section \<open>The statistics endpoint\<close>

text \<open>
  \<^verbatim>\<open>stats.products\<close> and \<^verbatim>\<open>stats.platforms\<close> are object literals \<^verbatim>\<open>{}\<close> used as
  dictionaries. Such an object has its own properties, kept here in insertion order,
  and behind them the properties it inherits from \<^verbatim>\<open>Object.prototype\<close>; a read
  \<^verbatim>\<open>obj[name]\<close> finds an inherited property when there is no own one. Every inherited
  value is a function or an object, hence truthy.
\<close>

definition object_prototype_names :: "string list" where
  "object_prototype_names =
     [''constructor'', ''__defineGetter__'', ''__defineSetter__'', ''hasOwnProperty'',
      ''__lookupGetter__'', ''__lookupSetter__'', ''isPrototypeOf'',
      ''propertyIsEnumerable'', ''toString'', ''valueOf'', ''__proto__'',
      ''toLocaleString'']"

datatype 'a lookup = Own 'a | Inherited | Undefined

definition object_get :: "(string \<times> 'a) list \<Rightarrow> string \<Rightarrow> 'a lookup" where
  "object_get props name =
     (case map_of props name of
        Some v \<Rightarrow> Own v
      | None \<Rightarrow> if name \<in> set object_prototype_names then Inherited else Undefined)"

text \<open>Writing an own property: in place when it exists, appended otherwise.\<close>

fun object_set :: "string \<Rightarrow> 'a \<Rightarrow> (string \<times> 'a) list \<Rightarrow> (string \<times> 'a) list" where
  "object_set name v [] = [(name, v)]"
| "object_set name v ((k, w) # props) =
     (if k = name then (k, v) # props else (k, w) # object_set name v props)"

record product_stats =
  ps_count :: nat
  ps_size :: nat

text \<open>
  \<^verbatim>\<open>if (!stats.products[p]) stats.products[p] = { count: 0, size: 0 };\<close>
  \<^verbatim>\<open>stats.products[p].count++; stats.products[p].size += object.size;\<close>
  When \<^verbatim>\<open>p\<close> names an inherited property the test finds a truthy value, nothing is
  initialised, and the two updates write \<^verbatim>\<open>count\<close> and \<^verbatim>\<open>size\<close> on the inherited
  function or object: \<^verbatim>\<open>stats.products\<close> keeps its own properties unchanged.
\<close>

definition track_product ::
  "string \<Rightarrow> nat \<Rightarrow> (string \<times> product_stats) list \<Rightarrow> (string \<times> product_stats) list" where
  "track_product p sz props =
     (let props1 = (case object_get props p of
                      Undefined \<Rightarrow> object_set p \<lparr> ps_count = 0, ps_size = 0 \<rparr> props
                    | _ \<Rightarrow> props)
      in (case object_get props1 p of
            Own v \<Rightarrow> object_set p (v\<lparr> ps_count := ps_count v + 1, ps_size := ps_size v + sz \<rparr>) props1
          | _ \<Rightarrow> props1))"

text \<open>
  A value of \<^verbatim>\<open>stats.platforms\<close>: a count, or, once an inherited value has been
  concatenated with \<^verbatim>\<open>1\<close>, a text that is no number.
\<close>

datatype platform_count = Count nat | Text

text \<open>
  \<^verbatim>\<open>stats.platforms[p] = (stats.platforms[p] || 0) + 1;\<close>
  The assignment creates an own property, except for \<^verbatim>\<open>__proto__\<close>, whose inherited
  setter ignores a value that is not an object.
\<close>

definition track_platform ::
  "string \<Rightarrow> (string \<times> platform_count) list \<Rightarrow> (string \<times> platform_count) list" where
  "track_platform p props =
     (let v = (case object_get props p of
                 Own (Count n) \<Rightarrow> Count (n + 1)
               | Own Text \<Rightarrow> Text
               | Inherited \<Rightarrow> Text
               | Undefined \<Rightarrow> Count 1)
      in if p = ''__proto__'' then props else object_set p v props)"

text \<open>\<^verbatim>\<open>a > b\<close> on dates compares their time values; a comparison with \<^verbatim>\<open>NaN\<close> is false.\<close>

definition date_gt :: "date \<Rightarrow> date \<Rightarrow> bool" where
  "date_gt a b =
     (case (getTime a, getTime b) of (Some ta, Some tb) \<Rightarrow> tb < ta | _ \<Rightarrow> False)"

record stats =
  totalReleases :: nat
  totalSize :: nat
  products :: "(string \<times> product_stats) list"
  platforms :: "(string \<times> platform_count) list"
  latestUpload :: "date option"

text \<open>The loop of \<^verbatim>\<open>GET /api/stats\<close>, threading the \<^verbatim>\<open>stats\<close> object.\<close>

fun stats_loop :: "r2object list \<Rightarrow> stats \<Rightarrow> stats" where
  "stats_loop [] st = st"
| "stats_loop (object # objects) st =
     (case parseReleaseMetadata object of
        None \<Rightarrow> stats_loop objects st
      | Some metadata \<Rightarrow>
          stats_loop objects
            \<lparr> totalReleases = totalReleases st + 1,
              totalSize = totalSize st + obj_size object,
              products = track_product (product metadata) (obj_size object) (products st),
              platforms = track_platform (platform metadata) (platforms st),
              latestUpload =
                (case latestUpload st of
                   None \<Rightarrow> Some (obj_uploaded object)
                 | Some latest \<Rightarrow>
                     if date_gt (obj_uploaded object) latest
                     then Some (obj_uploaded object) else Some latest) \<rparr>)"

definition initial_stats :: stats where
  "initial_stats =
     \<lparr> totalReleases = 0, totalSize = 0, products = [], platforms = [], latestUpload = None \<rparr>"

text \<open>The JSON body of a successful statistics response:
  \<^verbatim>\<open>{ ...stats, totalSizeFormatted: formatFileSize(stats.totalSize) }\<close>.\<close>

record stats_response =
  resp_stats :: stats
  totalSizeFormatted :: string

text \<open>
  \<^verbatim>\<open>app.get('/api/stats')\<close>, given the bucket. \<^verbatim>\<open>formatFileSize\<close> is a parameter of
  the handler's model: the source computes it on doubles, with \<^verbatim>\<open>Math.log\<close>,
  \<^verbatim>\<open>Math.pow\<close> and \<^verbatim>\<open>Math.round\<close>, and the results of those are not the results of
  exact arithmetic on the byte count. The statistics themselves do not depend on it.
\<close>

definition get_api_stats :: "(nat \<Rightarrow> string) \<Rightarrow> r2object list \<Rightarrow> stats_response" where
  "get_api_stats formatFileSize bucket =
     (let listed = bucket_list None bucket;
          st = stats_loop listed initial_stats
      in \<lparr> resp_stats = st, totalSizeFormatted = formatFileSize (totalSize st) \<rparr>)"

text \<open>The sum of the per-product counts a response shows: the counts of the own
  properties of \<^verbatim>\<open>stats.products\<close>, which are what the JSON body lists.\<close>

definition counts_sum :: "(string \<times> product_stats) list \<Rightarrow> nat" where
  "counts_sum props = sum_list (map (\<lambda>(name, ps). ps_count ps) props)"

definition product_count_sum :: "stats \<Rightarrow> nat" where
  "product_count_sum st = counts_sum (products st)"

section \<open>Vocabulary of the statements\<close>

text \<open>The text before the first occurrence of a character, and the text after it.\<close>

definition before_first :: "char \<Rightarrow> string \<Rightarrow> string" where
  "before_first c s = takeWhile (\<lambda>x. x \<noteq> c) s"

definition after_first :: "char \<Rightarrow> string \<Rightarrow> string" where
  "after_first c s = tl (dropWhile (\<lambda>x. x \<noteq> c) s)"

text \<open>A tag overrides when the tag map has a non-empty value under its name.\<close>

definition overrides :: "(string \<rightharpoonup> string) \<Rightarrow> string \<Rightarrow> bool" where
  "overrides tags name = (case tags name of None \<Rightarrow> False | Some s \<Rightarrow> s \<noteq> [])"

text \<open>The four fields a tag of the same name can override, with their selectors.\<close>

definition tag_fields :: "(string \<times> (release_metadata \<Rightarrow> string)) list" where
  "tag_fields =
     [(''product'', product), (''version'', version), (''platform'', platform), (''arch'', arch)]"

text \<open>The key convention \<^verbatim>\<open>product/version/platform-arch/filename\<close>.\<close>

definition make_key :: "string \<Rightarrow> string \<Rightarrow> string \<Rightarrow> string \<Rightarrow> string \<Rightarrow> string" where
  "make_key p v pl ar fn = p @ ''/'' @ v @ ''/'' @ pl @ ''-'' @ ar @ ''/'' @ fn"

text \<open>The entries a listing pushes, in the order of the objects listed: one for each
  object whose parse yields metadata.\<close>

definition parsed_entries :: "r2object list \<Rightarrow> release_file list" where
  "parsed_entries objects =
     List.map_filter (\<lambda>object. map_option (release_entry object) (parseReleaseMetadata object))
       objects"

text \<open>\<open>newest_first a b\<close>: both upload dates are valid and \<open>a\<close> was uploaded no
  earlier than \<open>b\<close>.\<close>

definition newest_first :: "release_file \<Rightarrow> release_file \<Rightarrow> bool" where
  "newest_first a b =
     (case (rf_uploaded a, rf_uploaded b) of (Date ta, Date tb) \<Rightarrow> tb \<le> ta | _ \<Rightarrow> False)"

text \<open>The time value of an entry's upload date, for the entries that have one.\<close>

definition uploaded_time :: "release_file \<Rightarrow> int" where
  "uploaded_time r = (case rf_uploaded r of Date t \<Rightarrow> t | InvalidDate \<Rightarrow> 0)"

section \<open>Facts about splitting and joining\<close>

lemma str_split_not_Nil: "str_split sep s \<noteq> []"
  by (induction s) (auto split: list.splits)

lemma str_split_no_sep: "sep \<notin> set s \<Longrightarrow> str_split sep s = [s]"
  by (induction s) auto

lemma str_split_append_sep:
  "sep \<notin> set a \<Longrightarrow> str_split sep (a @ sep # rest) = a # str_split sep rest"
  by (induction a) auto

lemma str_join_split: "str_join [sep] (str_split sep s) = s"
proof (induction s)
  case Nil
  show ?case by simp
next
  case (Cons c cs)
  show ?case
  proof (cases "str_split sep cs")
    case Nil
    then show ?thesis using str_split_not_Nil by blast
  next
    case (Cons seg segs)
    with Cons.IH show ?thesis by (cases segs) auto
  qed
qed

lemma hd_str_split: "hd (str_split sep s) = before_first sep s"
  by (induction s) (auto split: list.splits simp: str_split_not_Nil before_first_def)

lemma str_split_decompose:
  "sep \<in> set s \<Longrightarrow>
     str_split sep s = before_first sep s # str_split sep (after_first sep s)"
  by (induction s)
     (auto split: list.splits simp: str_split_not_Nil before_first_def after_first_def)

lemma second_piece:
  "array_get (str_split sep s) 1 =
     (if sep \<in> set s then Some (before_first sep (after_first sep s)) else None)"
proof (cases "sep \<in> set s")
  case True
  obtain seg segs where rest: "str_split sep (after_first sep s) = seg # segs"
    using str_split_not_Nil [of sep "after_first sep s"]
    by (cases "str_split sep (after_first sep s)") auto
  have "seg = before_first sep (after_first sep s)"
    using hd_str_split [of sep "after_first sep s"] rest by simp
  moreover have "str_split sep s = before_first sep s # seg # segs"
    using str_split_decompose [OF True] rest by simp
  ultimately show ?thesis using True by (simp add: array_get_def)
next
  case False
  then show ?thesis by (simp add: str_split_no_sep array_get_def)
qed

lemma no_sep_in_segments: "seg \<in> set (str_split sep s) \<Longrightarrow> sep \<notin> set seg"
  by (induction s arbitrary: seg) (auto split: list.splits if_splits)

lemma str_join_first_three:
  "4 \<le> length segs \<Longrightarrow>
     str_join sep segs =
       segs ! 0 @ sep @ segs ! 1 @ sep @ segs ! 2 @ sep @ str_join sep (drop 3 segs)"
proof -
  assume "4 \<le> length segs"
  then obtain a b c d rest where "segs = a # b # c # d # rest"
    by (cases segs; cases "tl segs"; cases "tl (tl segs)"; cases "tl (tl (tl segs))") auto
  then show ?thesis by simp
qed

section \<open>What parseReleaseMetadata returns\<close>

text \<open>The parse yields no metadata exactly for an object whose upload date is invalid,
  and is otherwise one of two record expressions, chosen by the number of segments.\<close>

lemma parse_invalid: "obj_uploaded object = InvalidDate \<Longrightarrow> parseReleaseMetadata object = None"
  by (simp add: parseReleaseMetadata_def)

lemma parse_None_iff: "parseReleaseMetadata object = None \<longleftrightarrow> obj_uploaded object = InvalidDate"
  by (cases "obj_uploaded object") (simp_all add: parseReleaseMetadata_def Let_def)

lemma parse_short:
  assumes "length (str_split CHR ''/'' (obj_key object)) < 4" and "obj_uploaded object = Date t"
  shows "parseReleaseMetadata object =
           Some \<lparr> product = or_else (tags_of object ''product'') ''unknown'',
                  version = or_else (tags_of object ''version'') ''unknown'',
                  platform = or_else (tags_of object ''platform'') ''unknown'',
                  arch = or_else (tags_of object ''arch'') ''unknown'',
                  uploadDate = t,
                  md_size = obj_size object,
                  filename = (if last (str_split CHR ''/'' (obj_key object)) = [] then obj_key object
                              else last (str_split CHR ''/'' (obj_key object))),
                  checksum = tags_of object ''checksum'',
                  description = tags_of object ''description'' \<rparr>"
  using assms by (simp add: parseReleaseMetadata_def Let_def array_pop_def str_split_not_Nil)

lemma parse_long:
  assumes "4 \<le> length (str_split CHR ''/'' (obj_key object))" and "obj_uploaded object = Date t"
  shows "parseReleaseMetadata object =
           Some \<lparr> product = or_else (tags_of object ''product'') (str_split CHR ''/'' (obj_key object) ! 0),
                  version = or_else (tags_of object ''version'') (str_split CHR ''/'' (obj_key object) ! 1),
                  platform = or_else (tags_of object ''platform'')
                     (before_first CHR ''-'' (str_split CHR ''/'' (obj_key object) ! 2)),
                  arch = or_else (js_or (tags_of object ''arch'')
                     (if CHR ''-'' \<in> set (str_split CHR ''/'' (obj_key object) ! 2)
                      then Some (before_first CHR ''-'' (after_first CHR ''-'' (str_split CHR ''/'' (obj_key object) ! 2)))
                      else None)) ''unknown'',
                  uploadDate = t,
                  md_size = obj_size object,
                  filename = str_join ''/'' (drop 3 (str_split CHR ''/'' (obj_key object))),
                  checksum = tags_of object ''checksum'',
                  description = tags_of object ''description'' \<rparr>"
  using assms by (simp add: parseReleaseMetadata_def Let_def hd_str_split second_piece [unfolded One_nat_def])

lemma or_else_overrides:
  "or_else (tags name) d = (if overrides tags name then the (tags name) else d)"
  by (cases "tags name") (auto simp: overrides_def)

lemma or_else_not_overrides: "\<not> overrides tags name \<Longrightarrow> or_else (tags name) d = d"
  by (simp add: or_else_overrides)

lemma js_or_not_overrides: "\<not> overrides tags name \<Longrightarrow> js_or (tags name) b = b"
  by (cases "tags name") (auto simp: overrides_def)

lemma tag_fields_ball:
  "(\<forall>(name, field) \<in> set tag_fields. P name field) \<longleftrightarrow>
     P ''product'' product \<and> P ''version'' version \<and> P ''platform'' platform \<and> P ''arch'' arch"
  by (simp add: tag_fields_def)

lemma or_else_case:
  "or_else x d = (case x of None \<Rightarrow> d | Some s \<Rightarrow> if s = [] then d else s)"
  by (cases x) auto

lemma last_no_slash: "sep \<notin> set s \<Longrightarrow> last (str_split sep s) = s"
  by (simp add: str_split_no_sep)

lemma segments_no_slash:
  "i < length (str_split sep s) \<Longrightarrow> sep \<notin> set (str_split sep s ! i)"
  using no_sep_in_segments [of "str_split sep s ! i" sep s] by simp

lemma key_first_three:
  assumes "4 \<le> length (str_split CHR ''/'' k)"
  shows "k = str_split CHR ''/'' k ! 0 @ ''/'' @ str_split CHR ''/'' k ! 1 @ ''/'' @
             str_split CHR ''/'' k ! 2 @ ''/'' @ str_join ''/'' (drop 3 (str_split CHR ''/'' k))"
  using str_join_first_three [OF assms, of "''/''"] str_join_split [of "CHR ''/''" k] by simp

lemma or_else_empty_iff:
  "or_else (tags name) d = [] \<longleftrightarrow> \<not> overrides tags name \<and> d = []"
  by (cases "tags name") (auto simp: overrides_def)

lemma or_else_unknown_nonempty: "or_else x ''unknown'' \<noteq> []"
  by (cases x) auto

lemma split_made_key:
  assumes "CHR ''/'' \<notin> set p" "CHR ''/'' \<notin> set v" "CHR ''/'' \<notin> set pl" "CHR ''/'' \<notin> set ar"
  shows "str_split CHR ''/'' (make_key p v pl ar fn) =
           p # v # (pl @ CHR ''-'' # ar) # str_split CHR ''/'' fn"
proof -
  have mid: "CHR ''/'' \<notin> set (pl @ CHR ''-'' # ar)" using assms by simp
  have "str_split CHR ''/'' ((pl @ CHR ''-'' # ar) @ CHR ''/'' # fn) =
          (pl @ CHR ''-'' # ar) # str_split CHR ''/'' fn"
    by (rule str_split_append_sep [OF mid])
  then have "str_split CHR ''/'' (v @ CHR ''/'' # ((pl @ CHR ''-'' # ar) @ CHR ''/'' # fn)) =
          v # (pl @ CHR ''-'' # ar) # str_split CHR ''/'' fn"
    by (simp only: str_split_append_sep [OF assms(2)])
  then have "str_split CHR ''/''
          (p @ CHR ''/'' # (v @ CHR ''/'' # ((pl @ CHR ''-'' # ar) @ CHR ''/'' # fn))) =
          p # v # (pl @ CHR ''-'' # ar) # str_split CHR ''/'' fn"
    by (simp only: str_split_append_sep [OF assms(1)])
  then show ?thesis by (simp add: make_key_def)
qed

section \<open>Keys with at least four segments\<close>

text \<open>
  Claim C2, as the source has it. For a key with at least four segments and no overriding
  tag: with \<open>p\<close>, \<open>v\<close> and \<open>pa\<close> the first three segments, the key reads
  \<open>p/v/pa/filename\<close> with no slash in \<open>p\<close>, \<open>v\<close> and \<open>pa\<close>;
  product is \<open>p\<close> and version is \<open>v\<close>; platform is the text of \<open>pa\<close> before its first
  dash; arch is the text between the first dash of \<open>pa\<close> and the next one (the end of
  \<open>pa\<close> when there is no next one), and the literal \<open>unknown\<close> when \<open>pa\<close> has no dash or
  that text is empty; filename is the remaining segments rejoined with slashes.
\<close>

theorem C2_structured_key:
  assumes "4 \<le> length (str_split CHR ''/'' (obj_key object))"
    and "\<forall>(name, field) \<in> set tag_fields. \<not> overrides (tags_of object) name"
    and "obj_uploaded object = Date t"
  shows "\<exists>md p v pa.
           parseReleaseMetadata object = Some md \<and>
           p = str_split CHR ''/'' (obj_key object) ! 0 \<and>
           v = str_split CHR ''/'' (obj_key object) ! 1 \<and>
           pa = str_split CHR ''/'' (obj_key object) ! 2 \<and>
           obj_key object = p @ ''/'' @ v @ ''/'' @ pa @ ''/'' @ filename md \<and>
           CHR ''/'' \<notin> set p \<and> CHR ''/'' \<notin> set v \<and> CHR ''/'' \<notin> set pa \<and>
           product md = p \<and> version md = v \<and>
           platform md = before_first CHR ''-'' pa \<and>
           arch md =
             (if CHR ''-'' \<in> set pa \<and> before_first CHR ''-'' (after_first CHR ''-'' pa) \<noteq> []
              then before_first CHR ''-'' (after_first CHR ''-'' pa)
              else ''unknown'') \<and>
           filename md = str_join ''/'' (drop 3 (str_split CHR ''/'' (obj_key object)))"
proof -
  let ?segs = "str_split CHR ''/'' (obj_key object)"
  from assms(2) have no_tags:
    "\<not> overrides (tags_of object) ''product''" "\<not> overrides (tags_of object) ''version''"
    "\<not> overrides (tags_of object) ''platform''" "\<not> overrides (tags_of object) ''arch''"
    by (simp_all add: tag_fields_ball)
  let ?md = "the (parseReleaseMetadata object)"
  have parsed: "parseReleaseMetadata object = Some ?md"
    by (simp add: parse_long [OF assms(1,3)])
  have fields:
    "product ?md = ?segs ! 0" "version ?md = ?segs ! 1"
    "platform ?md = before_first CHR ''-'' (?segs ! 2)"
    "filename ?md = str_join ''/'' (drop 3 ?segs)"
    by (simp_all add: parse_long [OF assms(1,3)] or_else_not_overrides no_tags)
  have arch_field:
    "arch ?md =
       (if CHR ''-'' \<in> set (?segs ! 2) \<and>
           before_first CHR ''-'' (after_first CHR ''-'' (?segs ! 2)) \<noteq> []
        then before_first CHR ''-'' (after_first CHR ''-'' (?segs ! 2))
        else ''unknown'')"
    by (simp add: parse_long [OF assms(1,3)] js_or_not_overrides no_tags)
  have key: "obj_key object = ?segs ! 0 @ ''/'' @ ?segs ! 1 @ ''/'' @ ?segs ! 2 @ ''/'' @ filename ?md"
    using key_first_three [OF assms(1)] fields(4) by simp
  have slashes: "CHR ''/'' \<notin> set (?segs ! 0)" "CHR ''/'' \<notin> set (?segs ! 1)"
    "CHR ''/'' \<notin> set (?segs ! 2)"
    using assms(1) by (auto intro!: segments_no_slash)
  from parsed key slashes fields arch_field show ?thesis by blast
qed

text \<open>An instance with a nested path in the filename.\<close>

theorem C2_structured_key_witness:
  "4 \<le> length (str_split CHR ''/'' ''app/1.0/macos-arm64/pkg/app.dmg'') \<and>
   (\<exists>md. parseReleaseMetadata
           \<lparr> obj_key = ''app/1.0/macos-arm64/pkg/app.dmg'', obj_size = 9,
             obj_uploaded = Date 1, obj_customMetadata = None \<rparr> = Some md \<and>
         product md = ''app'' \<and> version md = ''1.0'' \<and> platform md = ''macos'' \<and>
         arch md = ''arm64'' \<and> filename md = ''pkg/app.dmg'')"
  using C2_structured_key
          [of "\<lparr> obj_key = ''app/1.0/macos-arm64/pkg/app.dmg'', obj_size = 9,
                 obj_uploaded = Date 1, obj_customMetadata = None \<rparr>" 1]
  by (auto simp: tag_fields_def tags_of_def overrides_def before_first_def after_first_def)

text \<open>
  The claim as stated takes arch to be everything after the first dash. For the third
  segment \<open>linux-x64-musl\<close> that is \<open>x64-musl\<close>, and the source returns \<open>x64\<close>:
  \<^verbatim>\<open>platformArch.split('-')\<close> splits at every dash and the destructuring keeps the
  first two pieces.
\<close>

theorem C2_second_dash_counterexample:
  "after_first CHR ''-'' ''linux-x64-musl'' = ''x64-musl'' \<and>
   map_option arch
     (parseReleaseMetadata
        \<lparr> obj_key = ''p/v/linux-x64-musl/f.bin'', obj_size = 1, obj_uploaded = Date 0,
          obj_customMetadata = None \<rparr>) = Some ''x64''"
  by (simp add: parseReleaseMetadata_def array_get_def tags_of_def after_first_def)

section \<open>Non-empty fields\<close>

text \<open>
  Claim C3, as the source has it. Whenever the parse yields metadata, arch is not empty;
  for a key with fewer than four segments product, version and platform are not empty
  either; for a longer key each of the three is empty exactly when no tag overrides it
  and the part of the key it is read from (the first segment, the second segment, the
  text of the third segment before its first dash) is empty.
\<close>

theorem C3_nonempty_fields:
  assumes "parseReleaseMetadata object = Some md"
  shows "arch md \<noteq> [] \<and>
         (length (str_split CHR ''/'' (obj_key object)) < 4 \<longrightarrow>
            product md \<noteq> [] \<and> version md \<noteq> [] \<and> platform md \<noteq> []) \<and>
         (product md = [] \<longleftrightarrow>
            4 \<le> length (str_split CHR ''/'' (obj_key object)) \<and>
            \<not> overrides (tags_of object) ''product'' \<and>
            str_split CHR ''/'' (obj_key object) ! 0 = []) \<and>
         (version md = [] \<longleftrightarrow>
            4 \<le> length (str_split CHR ''/'' (obj_key object)) \<and>
            \<not> overrides (tags_of object) ''version'' \<and>
            str_split CHR ''/'' (obj_key object) ! 1 = []) \<and>
         (platform md = [] \<longleftrightarrow>
            4 \<le> length (str_split CHR ''/'' (obj_key object)) \<and>
            \<not> overrides (tags_of object) ''platform'' \<and>
            before_first CHR ''-'' (str_split CHR ''/'' (obj_key object) ! 2) = [])"
proof -
  obtain t where valid: "obj_uploaded object = Date t"
    using assms parse_None_iff [of object] by (cases "obj_uploaded object") auto
  show ?thesis
  proof (cases "length (str_split CHR ''/'' (obj_key object)) < 4")
    case True
    from assms parse_short [OF True valid] show ?thesis
      using True by (auto simp: or_else_unknown_nonempty)
  next
    case False
    then have long: "4 \<le> length (str_split CHR ''/'' (obj_key object))" by simp
    from assms parse_long [OF long valid] show ?thesis
      using long by (auto simp: or_else_unknown_nonempty or_else_empty_iff)
  qed
qed

theorem C3_nonempty_fields_witness:
  "\<exists>md. parseReleaseMetadata
          \<lparr> obj_key = ''app/1.0/linux/f'', obj_size = 2, obj_uploaded = Date 3,
            obj_customMetadata = None \<rparr> = Some md \<and>
        arch md \<noteq> [] \<and> product md \<noteq> []"
proof -
  let ?object = "\<lparr> obj_key = ''app/1.0/linux/f'', obj_size = 2, obj_uploaded = Date 3,
                    obj_customMetadata = None \<rparr>"
  obtain md where parsed: "parseReleaseMetadata ?object = Some md"
    using parse_None_iff [of ?object] by auto
  from C3_nonempty_fields [OF parsed] have "arch md \<noteq> [] \<and> product md \<noteq> []"
    by simp
  with parsed show ?thesis by blast
qed

text \<open>The claim as stated fails for a key whose first segment is empty: the product is
  the empty string, since \<^verbatim>\<open>customMetadata.product || product\<close> has no further
  fallback.\<close>

theorem C3_empty_segment_counterexample:
  "map_option product
     (parseReleaseMetadata
        \<lparr> obj_key = ''/1.0/linux-x64/f.bin'', obj_size = 1, obj_uploaded = Date 0,
          obj_customMetadata = None \<rparr>) = Some []"
  by (simp add: parseReleaseMetadata_def tags_of_def)

section \<open>Round trip of the key convention\<close>

text \<open>
  Claim C5, as the source has it. For product, version, platform and arch without a
  slash, platform and arch without a dash, arch not empty, and any filename (nested
  paths included), parsing the key \<open>product/version/platform-arch/filename\<close> with an
  empty tag map gives back the five parts.
\<close>

theorem C5_round_trip:
  assumes "CHR ''/'' \<notin> set p" and "CHR ''/'' \<notin> set v"
    and "CHR ''/'' \<notin> set pl" and "CHR ''/'' \<notin> set ar"
    and "CHR ''-'' \<notin> set pl" and "CHR ''-'' \<notin> set ar"
    and "ar \<noteq> []"
    and "obj_key object = make_key p v pl ar fn"
    and "tags_of object = Map.empty"
    and "obj_uploaded object = Date t"
  shows "parseReleaseMetadata object =
           Some \<lparr> product = p, version = v, platform = pl, arch = ar, uploadDate = t,
                  md_size = obj_size object, filename = fn, checksum = None,
                  description = None \<rparr>"
proof -
  have segs: "str_split CHR ''/'' (obj_key object) =
                p # v # (pl @ CHR ''-'' # ar) # str_split CHR ''/'' fn"
    using assms(1-4,8) by (simp add: split_made_key)
  obtain f fs where fn: "str_split CHR ''/'' fn = f # fs"
    using str_split_not_Nil [of "CHR ''/''" fn] by (cases "str_split CHR ''/'' fn") auto
  have pieces: "str_split CHR ''-'' (pl @ CHR ''-'' # ar) = [pl, ar]"
    using assms(5,6) by (simp add: str_split_append_sep str_split_no_sep)
  have joined: "str_join ''/'' (f # fs) = fn"
    using str_join_split [of "CHR ''/''" fn] fn by simp
  show ?thesis
    using assms(7,9,10) joined
    by (simp add: parseReleaseMetadata_def Let_def segs fn pieces array_get_def)
qed

theorem C5_round_trip_witness:
  "parseReleaseMetadata
     \<lparr> obj_key = make_key ''cogix-sdk'' ''0.9.0'' ''linux'' ''x64'' ''lib/libcogix.so'',
       obj_size = 4, obj_uploaded = Date 2, obj_customMetadata = Some Map.empty \<rparr> =
   Some \<lparr> product = ''cogix-sdk'', version = ''0.9.0'', platform = ''linux'', arch = ''x64'',
          uploadDate = 2, md_size = 4, filename = ''lib/libcogix.so'', checksum = None,
          description = None \<rparr>"
  using C5_round_trip
          [of "''cogix-sdk''" "''0.9.0''" "''linux''" "''x64''"
              "\<lparr> obj_key = make_key ''cogix-sdk'' ''0.9.0'' ''linux'' ''x64'' ''lib/libcogix.so'',
                 obj_size = 4, obj_uploaded = Date 2, obj_customMetadata = Some Map.empty \<rparr>"
              "''lib/libcogix.so''" 2]
  by (simp add: tags_of_def)

text \<open>The claim as stated admits the empty string for arch; the source then returns the
  literal \<open>unknown\<close>, the fallback of \<^verbatim>\<open>customMetadata.arch || arch || 'unknown'\<close>.\<close>

theorem C5_empty_arch_counterexample:
  "map_option arch
     (parseReleaseMetadata
        \<lparr> obj_key = make_key ''p'' ''v'' ''linux'' [] ''f.bin'', obj_size = 1,
          obj_uploaded = Date 0, obj_customMetadata = Some Map.empty \<rparr>) = Some ''unknown''"
  by (simp add: parseReleaseMetadata_def tags_of_def make_key_def array_get_def)

section \<open>Keys with fewer than four segments\<close>

text \<open>
  Claim C7, as the source has it. For a key with fewer than four segments the filename is
  the last segment when that is not empty and the whole key when it is (the fallback of
  \<^verbatim>\<open>key.split('/').pop() || key\<close>); a key without a slash is its own filename; product,
  version, platform and arch are the tag of that name when the tag is present and not
  empty, and the literal \<open>unknown\<close> otherwise.
\<close>

theorem C7_short_key_fallback:
  assumes "length (str_split CHR ''/'' (obj_key object)) < 4"
    and "obj_uploaded object = Date t"
  shows "\<exists>md. parseReleaseMetadata object = Some md \<and>
           filename md =
             (if last (str_split CHR ''/'' (obj_key object)) = [] then obj_key object
              else last (str_split CHR ''/'' (obj_key object))) \<and>
           (CHR ''/'' \<notin> set (obj_key object) \<longrightarrow> filename md = obj_key object) \<and>
           (\<forall>(name, field) \<in> set tag_fields.
              field md = (case tags_of object name of
                            None \<Rightarrow> ''unknown''
                          | Some s \<Rightarrow> if s = [] then ''unknown'' else s))"
  unfolding tag_fields_ball
  by (simp add: parse_short [OF assms] or_else_case last_no_slash)

text \<open>The instance of the claim: the key \<open>justafile.exe\<close> with an empty tag map.\<close>

theorem C7_short_key_witness:
  "length (str_split CHR ''/'' ''justafile.exe'') < 4 \<and>
   (\<exists>md. parseReleaseMetadata
           \<lparr> obj_key = ''justafile.exe'', obj_size = 7, obj_uploaded = Date 0,
             obj_customMetadata = Some Map.empty \<rparr> = Some md \<and>
         product md = ''unknown'' \<and> version md = ''unknown'' \<and> platform md = ''unknown'' \<and>
         arch md = ''unknown'' \<and> filename md = ''justafile.exe'')"
  using C7_short_key_fallback
          [of "\<lparr> obj_key = ''justafile.exe'', obj_size = 7, obj_uploaded = Date 0,
                 obj_customMetadata = Some Map.empty \<rparr>" 0]
  by (auto simp: tag_fields_def tags_of_def)

text \<open>The claim as stated takes the last segment as filename whenever the key has a
  slash. For the key \<open>docs/\<close> the last segment is empty and the source returns the whole
  key.\<close>

theorem C7_trailing_slash_counterexample:
  "length (str_split CHR ''/'' ''docs/'') < 4 \<and>
   last (str_split CHR ''/'' ''docs/'') = [] \<and>
   map_option filename
     (parseReleaseMetadata
        \<lparr> obj_key = ''docs/'', obj_size = 0, obj_uploaded = Date 0,
          obj_customMetadata = None \<rparr>) = Some ''docs/''"
  by (simp add: parseReleaseMetadata_def array_pop_def tags_of_def)

section \<open>Tag override precedence\<close>




lemma js_or_skipped: "x = None \<or> x = Some [] \<Longrightarrow> js_or x y = y"
  by auto



section \<open>The listing is sorted newest first, stably\<close>

lemma push_releases_append: "push_releases objects releases = releases @ parsed_entries objects"
  by (induction objects arbitrary: releases)
     (auto simp: parsed_entries_def List.map_filter_simps split: option.splits)

lemma set_sort_insert: "set (sort_insert cmp x ys) = insert x (set ys)"
  by (induction ys) auto

lemma set_array_sort: "set (array_sort cmp xs) = set xs"
  by (induction xs) (auto simp: array_sort_def set_sort_insert)

lemma length_sort_insert: "length (sort_insert cmp x ys) = Suc (length ys)"
  by (induction ys) auto

lemma length_array_sort: "length (array_sort cmp xs) = length xs"
  by (induction xs) (auto simp: array_sort_def length_sort_insert)

lemma parsed_entries_valid:
  "r \<in> set (parsed_entries objects) \<Longrightarrow> \<exists>t. rf_uploaded r = Date t"
proof -
  assume "r \<in> set (parsed_entries objects)"
  then obtain object md where "parseReleaseMetadata object = Some md" "r = release_entry object md"
    by (auto simp: parsed_entries_def List.map_filter_def)
  then show ?thesis
    using parse_None_iff [of object] by (cases "obj_uploaded object") (auto simp: release_entry_def)
qed

lemma sort_insert_as_insort:
  assumes "\<forall>r \<in> set (x # ys). \<exists>t. rf_uploaded r = Date t"
  shows "sort_insert compare_uploaded x ys = insort_key (\<lambda>r. - uploaded_time r) x ys"
  using assms
  by (induction ys)
     (auto simp: sort_compare_def compare_uploaded_def uploaded_time_def)

lemma array_sort_as_sort_key:
  assumes "\<forall>r \<in> set xs. \<exists>t. rf_uploaded r = Date t"
  shows "array_sort compare_uploaded xs = sort_key (\<lambda>r. - uploaded_time r) xs"
  using assms
proof (induction xs)
  case Nil
  show ?case by (simp add: array_sort_def)
next
  case (Cons x xs)
  then have IH: "array_sort compare_uploaded xs = sort_key (\<lambda>r. - uploaded_time r) xs" by simp
  have "\<forall>r \<in> set (x # sort_key (\<lambda>r. - uploaded_time r) xs). \<exists>t. rf_uploaded r = Date t"
    using Cons.prems by simp
  then show ?case
    using IH sort_insert_as_insort [of x "sort_key (\<lambda>r. - uploaded_time r) xs"]
    by (simp add: array_sort_def)
qed


lemma sorted_newest_first:
  assumes "\<forall>r \<in> set xs. \<exists>t. rf_uploaded r = Date t"
    and "sorted (map (\<lambda>r. - uploaded_time r) xs)"
  shows "sorted_wrt newest_first xs"
proof -
  have "sorted_wrt (\<lambda>a b. - uploaded_time a \<le> - uploaded_time b) xs"
    using assms(2) by (simp add: sorted_map)
  then show ?thesis
  proof (rule sorted_wrt_mono_rel [rotated])
    fix a b assume "a \<in> set xs" "b \<in> set xs" "- uploaded_time a \<le> - uploaded_time b"
    moreover from \<open>a \<in> set xs\<close> \<open>b \<in> set xs\<close> assms(1)
    obtain ta tb where "rf_uploaded a = Date ta" "rf_uploaded b = Date tb" by blast
    ultimately show "newest_first a b"
      by (simp add: newest_first_def uploaded_time_def)
  qed
qed

lemma stable_by_date:
  assumes "\<forall>r \<in> set xs. \<exists>t. rf_uploaded r = Date t"
  shows "filter (\<lambda>r. rf_uploaded r = d) (sort_key (\<lambda>r. - uploaded_time r) xs) =
         filter (\<lambda>r. rf_uploaded r = d) xs"
proof (cases d)
  case (Date t)
  have same: "\<And>ys. \<forall>r \<in> set ys. \<exists>t. rf_uploaded r = Date t \<Longrightarrow>
      filter (\<lambda>r. rf_uploaded r = d) ys = filter (\<lambda>r. - uploaded_time r = - t) ys"
    using Date by (intro filter_cong) (auto simp: uploaded_time_def)
  have "filter (\<lambda>r. rf_uploaded r = d) (sort_key (\<lambda>r. - uploaded_time r) xs) =
        filter (\<lambda>r. - uploaded_time r = - t) (sort_key (\<lambda>r. - uploaded_time r) xs)"
    using assms by (intro same) simp
  also have "\<dots> = filter (\<lambda>r. - uploaded_time r = - t) xs"
    by (rule sort_key_stable)
  also have "\<dots> = filter (\<lambda>r. rf_uploaded r = d) xs"
    using assms by (rule same [symmetric])
  finally show ?thesis .
next
  case InvalidDate
  have none: "\<And>ys. \<forall>r \<in> set ys. \<exists>t. rf_uploaded r = Date t \<Longrightarrow>
      filter (\<lambda>r. rf_uploaded r = d) ys = []"
    using InvalidDate by (auto simp: filter_empty_conv)
  have "filter (\<lambda>r. rf_uploaded r = d) (sort_key (\<lambda>r. - uploaded_time r) xs) = []"
    using assms by (intro none) simp
  moreover have "filter (\<lambda>r. rf_uploaded r = d) xs = []"
    using assms by (rule none)
  ultimately show ?thesis by simp
qed

text \<open>
  Claim C8. The response of \<^verbatim>\<open>GET /api/releases\<close> counts its releases; the releases
  are the successfully parsed entries, rearranged; they are in descending order of upload
  time; entries with the same upload time keep their input order; and three entries with
  times \<open>t1 < t2 = t2\<close> come out as the first with \<open>t2\<close>, the second with \<open>t2\<close>, then the
  one with \<open>t1\<close>, wherever the latter stood in the input.
\<close>

theorem C8_newest_first_stable:
  "resp_count (get_api_releases bucket) = length (resp_releases (get_api_releases bucket)) \<and>
   mset (resp_releases (get_api_releases bucket)) = mset (parsed_entries bucket) \<and>
   sorted_wrt newest_first (resp_releases (get_api_releases bucket)) \<and>
   (\<forall>d. filter (\<lambda>r. rf_uploaded r = d) (resp_releases (get_api_releases bucket)) =
        filter (\<lambda>r. rf_uploaded r = d) (parsed_entries bucket)) \<and>
   (\<forall>a b c t1 t2.
      obj_uploaded a = Date t2 \<and> obj_uploaded b = Date t2 \<and> obj_uploaded c = Date t1 \<and>
      t1 < t2 \<longrightarrow>
      (\<exists>ma mb mc.
         parseReleaseMetadata a = Some ma \<and> parseReleaseMetadata b = Some mb \<and>
         parseReleaseMetadata c = Some mc \<and>
         resp_releases (get_api_releases [a, b, c]) =
           [release_entry a ma, release_entry b mb, release_entry c mc] \<and>
         resp_releases (get_api_releases [a, c, b]) =
           [release_entry a ma, release_entry b mb, release_entry c mc] \<and>
         resp_releases (get_api_releases [c, a, b]) =
           [release_entry a ma, release_entry b mb, release_entry c mc]))"
proof -
  let ?f = "\<lambda>r. - uploaded_time r"
  have valid: "\<forall>r \<in> set (parsed_entries bucket). \<exists>t. rf_uploaded r = Date t"
    using parsed_entries_valid by blast
  have released: "resp_releases (get_api_releases bucket) = sort_key ?f (parsed_entries bucket)"
    by (simp add: get_api_releases_def bucket_list_def Let_def push_releases_append
          array_sort_as_sort_key [OF valid])
  have counted: "resp_count (get_api_releases bucket) = length (resp_releases (get_api_releases bucket))"
    by (simp add: get_api_releases_def Let_def)
  have perm: "mset (resp_releases (get_api_releases bucket)) = mset (parsed_entries bucket)"
    by (simp add: released)
  have ordered: "sorted_wrt newest_first (resp_releases (get_api_releases bucket))"
    unfolding released using valid by (intro sorted_newest_first) simp_all
  have stable: "\<forall>d. filter (\<lambda>r. rf_uploaded r = d) (resp_releases (get_api_releases bucket)) =
        filter (\<lambda>r. rf_uploaded r = d) (parsed_entries bucket)"
    unfolding released using stable_by_date [OF valid] by blast
  have example: "\<exists>ma mb mc.
         parseReleaseMetadata a = Some ma \<and> parseReleaseMetadata b = Some mb \<and>
         parseReleaseMetadata c = Some mc \<and>
         resp_releases (get_api_releases [a, b, c]) =
           [release_entry a ma, release_entry b mb, release_entry c mc] \<and>
         resp_releases (get_api_releases [a, c, b]) =
           [release_entry a ma, release_entry b mb, release_entry c mc] \<and>
         resp_releases (get_api_releases [c, a, b]) =
           [release_entry a ma, release_entry b mb, release_entry c mc]"
    if dates: "obj_uploaded a = Date t2" "obj_uploaded b = Date t2" "obj_uploaded c = Date t1"
      and older: "t1 < t2" for a b c t1 t2
  proof -
    obtain ma mb mc where parsed: "parseReleaseMetadata a = Some ma"
      "parseReleaseMetadata b = Some mb" "parseReleaseMetadata c = Some mc"
      using dates parse_None_iff [of a] parse_None_iff [of b] parse_None_iff [of c] by auto
    show ?thesis
      using parsed dates older
      by (simp add: get_api_releases_def bucket_list_def Let_def array_sort_def
            sort_compare_def compare_uploaded_def release_entry_def)
  qed
  from counted perm ordered stable example show ?thesis by blast
qed

text \<open>The instance of the claim on three concrete objects.\<close>

theorem C8_newest_first_stable_witness:
  "map rf_key
     (resp_releases
        (get_api_releases
           [\<lparr> obj_key = ''first-T2'', obj_size = 1, obj_uploaded = Date 20, obj_customMetadata = None \<rparr>,
            \<lparr> obj_key = ''T1'', obj_size = 1, obj_uploaded = Date 10, obj_customMetadata = None \<rparr>,
            \<lparr> obj_key = ''second-T2'', obj_size = 1, obj_uploaded = Date 20, obj_customMetadata = None \<rparr>])) =
   [''first-T2'', ''second-T2'', ''T1'']"
proof -
  let ?a = "\<lparr> obj_key = ''first-T2'', obj_size = 1, obj_uploaded = Date 20, obj_customMetadata = None \<rparr>"
  let ?b = "\<lparr> obj_key = ''second-T2'', obj_size = 1, obj_uploaded = Date 20, obj_customMetadata = None \<rparr>"
  let ?c = "\<lparr> obj_key = ''T1'', obj_size = 1, obj_uploaded = Date 10, obj_customMetadata = None \<rparr>"
  have "obj_uploaded ?a = Date 20 \<and> obj_uploaded ?b = Date 20 \<and> obj_uploaded ?c = Date 10 \<and>
        (10::int) < 20"
    by simp
  with C8_newest_first_stable [of "[?a, ?c, ?b]"] obtain ma mb mc where
    "resp_releases (get_api_releases [?a, ?c, ?b]) =
       [release_entry ?a ma, release_entry ?b mb, release_entry ?c mc]"
    by blast
  then show ?thesis by (simp add: release_entry_def)
qed

section \<open>The product listing\<close>

lemma push_product_releases_append:
  "push_product_releases p objects releases =
     releases @ filter (\<lambda>r. product (rf_metadata r) = p) (parsed_entries objects)"
  by (induction objects arbitrary: releases)
     (auto simp: parsed_entries_def List.map_filter_simps release_entry_def split: option.splits)

lemma in_parsed_entries:
  "r \<in> set (parsed_entries objects) \<longleftrightarrow>
     (\<exists>object \<in> set objects. \<exists>md. parseReleaseMetadata object = Some md \<and> r = release_entry object md)"
  by (induction objects)
     (auto simp: parsed_entries_def List.map_filter_simps split: option.splits)

lemma product_listing_set:
  "r \<in> set (resp_releases (get_api_releases_product p bucket)) \<longleftrightarrow>
     (\<exists>object \<in> set bucket. \<exists>md.
        startsWith (obj_key object) (p @ ''/'') \<and> parseReleaseMetadata object = Some md \<and>
        product md = p \<and> r = release_entry object md)"
  by (auto simp: get_api_releases_product_def Let_def set_array_sort push_product_releases_append
        in_parsed_entries bucket_list_def release_entry_def)

lemma takeWhile_before_sep:
  "sep \<notin> set a \<Longrightarrow> takeWhile (\<lambda>c. c \<noteq> sep) (a @ sep # rest) = a"
  by (induction a) auto

lemma one_prefix:
  assumes "startsWith k (a @ ''/'')" and "startsWith k (b @ ''/'')"
    and "CHR ''/'' \<notin> set a" and "CHR ''/'' \<notin> set b"
  shows "a = b"
proof -
  from assms(1) have "k = (a @ ''/'') @ drop (length (a @ ''/'')) k"
    unfolding startsWith_def by (metis append_take_drop_id)
  then have ka: "k = a @ CHR ''/'' # drop (Suc (length a)) k" by simp
  from assms(2) have "k = (b @ ''/'') @ drop (length (b @ ''/'')) k"
    unfolding startsWith_def by (metis append_take_drop_id)
  then have kb: "k = b @ CHR ''/'' # drop (Suc (length b)) k" by simp
  have "takeWhile (\<lambda>c. c \<noteq> CHR ''/'') k = a"
    by (subst ka) (rule takeWhile_before_sep [OF assms(3)])
  moreover have "takeWhile (\<lambda>c. c \<noteq> CHR ''/'') k = b"
    by (subst kb) (rule takeWhile_before_sep [OF assms(4)])
  ultimately show ?thesis by simp
qed

lemma release_entry_inject:
  "release_entry object md = release_entry object' md' \<longleftrightarrow>
     obj_key object = obj_key object' \<and> obj_size object = obj_size object' \<and>
     obj_uploaded object = obj_uploaded object' \<and> md = md'"
  by (auto simp: release_entry_def)

text \<open>
  Claim C10. Every entry \<^verbatim>\<open>GET /api/releases/:product\<close> returns has a key that begins
  with the product followed by a slash, and its resolved product is the requested one:
  an entry whose resolved product matches but whose key lies under another prefix is not
  returned.
\<close>

theorem C10_listed_under_prefix:
  assumes "r \<in> set (resp_releases (get_api_releases_product p bucket))"
  shows "startsWith (rf_key r) (p @ ''/'') \<and> product (rf_metadata r) = p"
  using assms unfolding product_listing_set by (auto simp: release_entry_def)

text \<open>A bucket with one entry under the prefix, which is returned, and one whose tag
  names the product under another prefix.\<close>

theorem C10_listed_under_prefix_witness:
  "\<lparr> rf_key = ''app/1.0/linux-x64/a.bin'', rf_size = 3, rf_uploaded = Date 7,
     rf_metadata = \<lparr> product = ''app'', version = ''1.0'', platform = ''linux'', arch = ''x64'',
                     uploadDate = 7, md_size = 3, filename = ''a.bin'', checksum = None,
                     description = None \<rparr> \<rparr>
     \<in> set (resp_releases
              (get_api_releases_product ''app''
                 [\<lparr> obj_key = ''app/1.0/linux-x64/a.bin'', obj_size = 3, obj_uploaded = Date 7,
                    obj_customMetadata = None \<rparr>,
                  \<lparr> obj_key = ''tool/2.0/linux-x64/b.bin'', obj_size = 4, obj_uploaded = Date 8,
                    obj_customMetadata = Some [''product'' \<mapsto> ''app''] \<rparr>])) \<and>
   startsWith ''app/1.0/linux-x64/a.bin'' (''app'' @ ''/'')"
proof -
  let ?bucket = "[\<lparr> obj_key = ''app/1.0/linux-x64/a.bin'', obj_size = 3, obj_uploaded = Date 7,
                    obj_customMetadata = None \<rparr>,
                  \<lparr> obj_key = ''tool/2.0/linux-x64/b.bin'', obj_size = 4, obj_uploaded = Date 8,
                    obj_customMetadata = Some [''product'' \<mapsto> ''app''] \<rparr>]"
  let ?r = "\<lparr> rf_key = ''app/1.0/linux-x64/a.bin'', rf_size = 3, rf_uploaded = Date 7,
     rf_metadata = \<lparr> product = ''app'', version = ''1.0'', platform = ''linux'', arch = ''x64'',
                     uploadDate = 7, md_size = 3, filename = ''a.bin'', checksum = None,
                     description = None \<rparr> \<rparr>"
  have listed: "?r \<in> set (resp_releases (get_api_releases_product ''app'' ?bucket))"
    by (simp add: get_api_releases_product_def bucket_list_def startsWith_def Let_def
          parseReleaseMetadata_def tags_of_def array_get_def release_entry_def array_sort_def)
  from C10_listed_under_prefix [OF listed] have "startsWith (rf_key ?r) (''app'' @ ''/'')" ..
  with listed show ?thesis by simp
qed

text \<open>
  Claim C1, as the source has it. The product listing returns exactly the entries of
  objects whose key begins with the requested product followed by a slash and whose
  resolved product is the requested one. So the entry of an object whose key begins with
  \<open>a/\<close> and whose product tag is \<open>b\<close> (not empty, different from \<open>a\<close>, neither with a
  slash) has resolved product \<open>b\<close> and is returned neither for \<open>a\<close>, where the
  equality test drops it, nor for \<open>b\<close>, where the store does not list it.
\<close>

theorem C1_listed_iff_prefix_and_product:
  "(r \<in> set (resp_releases (get_api_releases_product p bucket)) \<longleftrightarrow>
      (\<exists>object \<in> set bucket. \<exists>md.
          startsWith (obj_key object) (p @ ''/'') \<and> parseReleaseMetadata object = Some md \<and>
          product md = p \<and> r = release_entry object md)) \<and>
   (startsWith (obj_key object) (a @ ''/'') \<and> tags_of object ''product'' = Some b \<and>
    b \<noteq> [] \<and> a \<noteq> b \<and> CHR ''/'' \<notin> set a \<and> CHR ''/'' \<notin> set b \<and>
    parseReleaseMetadata object = Some md \<longrightarrow>
      product md = b \<and>
      release_entry object md \<notin> set (resp_releases (get_api_releases_product a bucket)) \<and>
      release_entry object md \<notin> set (resp_releases (get_api_releases_product b bucket)))"
proof (intro conjI impI)
  show "r \<in> set (resp_releases (get_api_releases_product p bucket)) \<longleftrightarrow>
      (\<exists>object \<in> set bucket. \<exists>md.
          startsWith (obj_key object) (p @ ''/'') \<and> parseReleaseMetadata object = Some md \<and>
          product md = p \<and> r = release_entry object md)"
    by (rule product_listing_set)
next
  assume h: "startsWith (obj_key object) (a @ ''/'') \<and> tags_of object ''product'' = Some b \<and>
    b \<noteq> [] \<and> a \<noteq> b \<and> CHR ''/'' \<notin> set a \<and> CHR ''/'' \<notin> set b \<and>
    parseReleaseMetadata object = Some md"
  obtain t where valid: "obj_uploaded object = Date t"
    using h parse_None_iff [of object] by (cases "obj_uploaded object") auto
  have resolved: "product md = b"
  proof (cases "length (str_split CHR ''/'' (obj_key object)) < 4")
    case True
    with h parse_short [OF True valid] show ?thesis by auto
  next
    case False
    then have long: "4 \<le> length (str_split CHR ''/'' (obj_key object))" by simp
    with h parse_long [OF long valid] show ?thesis by auto
  qed
  show "product md = b" by (rule resolved)
  show "release_entry object md \<notin> set (resp_releases (get_api_releases_product a bucket))"
    using h resolved unfolding product_listing_set by (auto simp: release_entry_inject)
  show "release_entry object md \<notin> set (resp_releases (get_api_releases_product b bucket))"
  proof
    assume "release_entry object md \<in> set (resp_releases (get_api_releases_product b bucket))"
    then have "startsWith (obj_key object) (b @ ''/'')"
      unfolding product_listing_set release_entry_inject by (elim bexE exE conjE) simp
    with h one_prefix [of "obj_key object" a b] show False by blast
  qed
qed

text \<open>The instance of the claim: a key under \<open>productA/\<close> tagged \<open>productB\<close>.\<close>

theorem C1_listed_iff_prefix_and_product_witness:
  "parseReleaseMetadata
     \<lparr> obj_key = ''productA/1.0/linux-x64/app.bin'', obj_size = 3, obj_uploaded = Date 7,
       obj_customMetadata = Some [''product'' \<mapsto> ''productB''] \<rparr> =
     Some \<lparr> product = ''productB'', version = ''1.0'', platform = ''linux'', arch = ''x64'',
            uploadDate = 7, md_size = 3, filename = ''app.bin'', checksum = None,
            description = None \<rparr> \<and>
   release_entry
     \<lparr> obj_key = ''productA/1.0/linux-x64/app.bin'', obj_size = 3, obj_uploaded = Date 7,
       obj_customMetadata = Some [''product'' \<mapsto> ''productB''] \<rparr>
     \<lparr> product = ''productB'', version = ''1.0'', platform = ''linux'', arch = ''x64'',
       uploadDate = 7, md_size = 3, filename = ''app.bin'', checksum = None,
       description = None \<rparr>
     \<notin> set (resp_releases
              (get_api_releases_product ''productA''
                 [\<lparr> obj_key = ''productA/1.0/linux-x64/app.bin'', obj_size = 3,
                    obj_uploaded = Date 7,
                    obj_customMetadata = Some [''product'' \<mapsto> ''productB''] \<rparr>])) \<and>
   release_entry
     \<lparr> obj_key = ''productA/1.0/linux-x64/app.bin'', obj_size = 3, obj_uploaded = Date 7,
       obj_customMetadata = Some [''product'' \<mapsto> ''productB''] \<rparr>
     \<lparr> product = ''productB'', version = ''1.0'', platform = ''linux'', arch = ''x64'',
       uploadDate = 7, md_size = 3, filename = ''app.bin'', checksum = None,
       description = None \<rparr>
     \<notin> set (resp_releases
              (get_api_releases_product ''productB''
                 [\<lparr> obj_key = ''productA/1.0/linux-x64/app.bin'', obj_size = 3,
                    obj_uploaded = Date 7,
                    obj_customMetadata = Some [''product'' \<mapsto> ''productB''] \<rparr>]))"
proof -
  let ?object = "\<lparr> obj_key = ''productA/1.0/linux-x64/app.bin'', obj_size = 3,
                    obj_uploaded = Date 7,
                    obj_customMetadata = Some [''product'' \<mapsto> ''productB''] \<rparr>"
  let ?md = "\<lparr> product = ''productB'', version = ''1.0'', platform = ''linux'', arch = ''x64'',
       uploadDate = 7, md_size = 3, filename = ''app.bin'', checksum = None,
       description = None \<rparr>"
  have parsed: "parseReleaseMetadata ?object = Some ?md"
    by (simp add: parseReleaseMetadata_def tags_of_def array_get_def)
  have "startsWith (obj_key ?object) (''productA'' @ ''/'') \<and>
        tags_of ?object ''product'' = Some ''productB'' \<and> ''productB'' \<noteq> [] \<and>
        ''productA'' \<noteq> ''productB'' \<and> CHR ''/'' \<notin> set ''productA'' \<and>
        CHR ''/'' \<notin> set ''productB''"
    by (simp add: startsWith_def tags_of_def)
  with parsed
    C1_listed_iff_prefix_and_product
      [where bucket = "[?object]" and object = ?object and a = "''productA''"
         and b = "''productB''" and md = ?md]
  show ?thesis by blast
qed

text \<open>The claim as stated has the entry returned for \<open>productB\<close>. The listing for
  \<open>productB\<close> asks the store for the prefix \<open>productB/\<close>, so the object is never
  parsed, and the response is empty.\<close>

theorem C1_not_listed_under_tag_counterexample:
  "startsWith ''productA/1.0/linux-x64/app.bin'' ''productA/'' \<and>
   map_option product
     (parseReleaseMetadata
        \<lparr> obj_key = ''productA/1.0/linux-x64/app.bin'', obj_size = 3, obj_uploaded = Date 7,
          obj_customMetadata = Some [''product'' \<mapsto> ''productB''] \<rparr>) = Some ''productB'' \<and>
   resp_releases
     (get_api_releases_product ''productB''
        [\<lparr> obj_key = ''productA/1.0/linux-x64/app.bin'', obj_size = 3, obj_uploaded = Date 7,
           obj_customMetadata = Some [''product'' \<mapsto> ''productB''] \<rparr>]) = []"
  by (simp add: get_api_releases_product_def bucket_list_def startsWith_def Let_def
        parseReleaseMetadata_def tags_of_def array_get_def array_sort_def)

section \<open>Statistics and listing\<close>

lemma total_releases_loop:
  "totalReleases (stats_loop objects st) = totalReleases st + length (parsed_entries objects)"
  by (induction objects arbitrary: st)
     (auto simp: parsed_entries_def List.map_filter_simps split: option.splits)

lemma listing_count: "resp_count (get_api_releases bucket) = length (parsed_entries bucket)"
  by (simp add: get_api_releases_def Let_def bucket_list_def length_array_sort
        push_releases_append)

lemma stats_total_is_listing_count:
  "totalReleases (resp_stats (get_api_stats formatFileSize bucket)) = resp_count (get_api_releases bucket)"
  by (simp add: get_api_stats_def Let_def bucket_list_def total_releases_loop listing_count
        initial_stats_def)

lemma counts_sum_new:
  "map_of props p = None \<Longrightarrow> counts_sum (object_set p v props) = counts_sum props + ps_count v"
  by (induction props) (auto simp: counts_sum_def)

lemma counts_sum_bump:
  "map_of props p = Some w \<Longrightarrow>
     counts_sum (object_set p (w\<lparr> ps_count := Suc (ps_count w), ps_size := s \<rparr>) props) =
       Suc (counts_sum props)"
  by (induction props) (auto simp: counts_sum_def)

lemma map_of_object_set: "map_of (object_set p v props) p = Some v"
  by (induction props) auto

lemma keys_object_set: "fst ` set (object_set p v props) = insert p (fst ` set props)"
proof (induction props)
  case Nil
  show ?case by simp
next
  case (Cons kv props)
  obtain k w where kv: "kv = (k, w)" by (cases kv)
  show ?case
  proof (cases "k = p")
    case True
    then show ?thesis by (simp add: kv)
  next
    case False
    then show ?thesis using Cons.IH by (simp add: kv insert_commute)
  qed
qed

lemma track_product_sum:
  "counts_sum (track_product p sz props) =
     counts_sum props + (if object_get props p = Inherited then 0 else 1)"
proof (cases "object_get props p")
  case (Own v)
  then have "map_of props p = Some v"
    by (auto simp: object_get_def split: option.splits if_splits)
  with Own show ?thesis by (simp add: track_product_def counts_sum_bump)
next
  case Inherited
  then show ?thesis by (simp add: track_product_def)
next
  case Undefined
  then have none: "map_of props p = None"
    by (auto simp: object_get_def split: option.splits if_splits)
  have own: "object_get (object_set p \<lparr> ps_count = 0, ps_size = 0 \<rparr> props) p =
               Own \<lparr> ps_count = 0, ps_size = 0 \<rparr>"
    by (simp add: object_get_def map_of_object_set)
  have "counts_sum
          (object_set p
             (\<lparr> ps_count = 0, ps_size = 0 \<rparr>
                \<lparr> ps_count := Suc (ps_count \<lparr> ps_count = 0, ps_size = 0 \<rparr>), ps_size := sz \<rparr>)
             (object_set p \<lparr> ps_count = 0, ps_size = 0 \<rparr> props)) =
        Suc (counts_sum (object_set p \<lparr> ps_count = 0, ps_size = 0 \<rparr> props))"
    by (rule counts_sum_bump [OF map_of_object_set])
  then show ?thesis
    using Undefined counts_sum_new [OF none, of "\<lparr> ps_count = 0, ps_size = 0 \<rparr>"]
    by (simp add: track_product_def own)
qed

lemma track_product_keys:
  "fst ` set (track_product p sz props) =
     (if object_get props p = Inherited then fst ` set props else insert p (fst ` set props))"
proof (cases "object_get props p")
  case (Own v)
  then have "map_of props p = Some v"
    by (auto simp: object_get_def split: option.splits if_splits)
  then have "p \<in> fst ` set props" by (metis map_of_eq_None_iff option.distinct(1))
  with Own show ?thesis by (auto simp: track_product_def keys_object_set)
next
  case Inherited
  then show ?thesis by (simp add: track_product_def)
next
  case Undefined
  have own: "object_get (object_set p \<lparr> ps_count = 0, ps_size = 0 \<rparr> props) p =
               Own \<lparr> ps_count = 0, ps_size = 0 \<rparr>"
    by (simp add: object_get_def map_of_object_set)
  show ?thesis using Undefined by (simp add: track_product_def own keys_object_set)
qed

lemma inherited_iff:
  assumes "fst ` set props \<inter> set object_prototype_names = {}"
  shows "object_get props p = Inherited \<longleftrightarrow> p \<in> set object_prototype_names"
proof
  assume "object_get props p = Inherited"
  then show "p \<in> set object_prototype_names"
    by (auto simp: object_get_def split: option.splits if_splits)
next
  assume inh: "p \<in> set object_prototype_names"
  with assms have "p \<notin> fst ` set props" by auto
  then have "map_of props p = None" by (simp add: map_of_eq_None_iff)
  with inh show "object_get props p = Inherited" by (simp add: object_get_def)
qed

lemma product_counts_loop:
  assumes "fst ` set (products st) \<inter> set object_prototype_names = {}"
  shows "counts_sum (products (stats_loop objects st)) =
           counts_sum (products st) +
           length (filter (\<lambda>r. product (rf_metadata r) \<notin> set object_prototype_names)
                     (parsed_entries objects))"
  using assms
proof (induction objects arbitrary: st)
  case Nil
  show ?case by (simp add: parsed_entries_def List.map_filter_simps)
next
  case (Cons object objects)
  show ?case
  proof (cases "parseReleaseMetadata object")
    case None
    with Cons show ?thesis by (simp add: parsed_entries_def List.map_filter_simps)
  next
    case (Some md)
    let ?st = "\<lparr> totalReleases = totalReleases st + 1,
              totalSize = totalSize st + obj_size object,
              products = track_product (product md) (obj_size object) (products st),
              platforms = track_platform (platform md) (platforms st),
              latestUpload =
                (case latestUpload st of
                   None \<Rightarrow> Some (obj_uploaded object)
                 | Some latest \<Rightarrow>
                     if date_gt (obj_uploaded object) latest
                     then Some (obj_uploaded object) else Some latest) \<rparr>"
    have inv: "fst ` set (products ?st) \<inter> set object_prototype_names = {}"
      using Cons.prems by (auto simp: track_product_keys inherited_iff [OF Cons.prems])
    have "counts_sum (products (stats_loop (object # objects) st)) =
            counts_sum (products (stats_loop objects ?st))"
      using Some by simp
    also have "\<dots> = counts_sum (products ?st) +
           length (filter (\<lambda>r. product (rf_metadata r) \<notin> set object_prototype_names)
                     (parsed_entries objects))"
      by (rule Cons.IH [OF inv])
    finally show ?thesis
      using Some
      by (simp add: track_product_sum inherited_iff [OF Cons.prems] parsed_entries_def
            List.map_filter_simps release_entry_def)
  qed
qed

lemma product_counts_sum:
  "product_count_sum (resp_stats (get_api_stats formatFileSize bucket)) +
     length (filter (\<lambda>r. product (rf_metadata r) \<in> set object_prototype_names)
               (parsed_entries bucket)) =
   totalReleases (resp_stats (get_api_stats formatFileSize bucket))"
proof -
  have "fst ` set (products initial_stats) \<inter> set object_prototype_names = {}"
    by (simp add: initial_stats_def)
  from product_counts_loop [OF this, of bucket]
  have "product_count_sum (resp_stats (get_api_stats formatFileSize bucket)) =
          length (filter (\<lambda>r. product (rf_metadata r) \<notin> set object_prototype_names)
                    (parsed_entries bucket))"
    by (simp add: get_api_stats_def Let_def bucket_list_def product_count_sum_def
          initial_stats_def counts_sum_def)
  moreover have "totalReleases (resp_stats (get_api_stats formatFileSize bucket)) = length (parsed_entries bucket)"
    by (simp add: stats_total_is_listing_count listing_count)
  ultimately show ?thesis
    using sum_length_filter_compl [of "\<lambda>r. product (rf_metadata r) \<in> set object_prototype_names"
            "parsed_entries bucket"]
    by simp
qed

text \<open>
  Claim C9 at an input where the source departs from it. The total of the statistics is
  the count of the listing for every bucket (\<open>stats_total_is_listing_count\<close>), and the
  per-product counts sum to the total less the entries whose resolved product is a
  property name inherited from \<^verbatim>\<open>Object.prototype\<close> (\<open>product_counts_sum\<close>). For one
  object under the prefix \<open>constructor/\<close> the total and the listing count are 1, while
  \<^verbatim>\<open>stats.products\<close> has no own property and its counts sum to 0.
\<close>

theorem C9_inherited_name_failing_input:
  "resp_count
     (get_api_releases
        [\<lparr> obj_key = ''constructor/1.0.0/linux-x64/setup.bin'', obj_size = 3,
           obj_uploaded = Date 5, obj_customMetadata = None \<rparr>]) = 1 \<and>
   totalReleases
     (resp_stats
        (get_api_stats formatFileSize
           [\<lparr> obj_key = ''constructor/1.0.0/linux-x64/setup.bin'', obj_size = 3,
              obj_uploaded = Date 5, obj_customMetadata = None \<rparr>])) = 1 \<and>
   products
     (resp_stats
        (get_api_stats formatFileSize
           [\<lparr> obj_key = ''constructor/1.0.0/linux-x64/setup.bin'', obj_size = 3,
              obj_uploaded = Date 5, obj_customMetadata = None \<rparr>])) = [] \<and>
   product_count_sum
     (resp_stats
        (get_api_stats formatFileSize
           [\<lparr> obj_key = ''constructor/1.0.0/linux-x64/setup.bin'', obj_size = 3,
              obj_uploaded = Date 5, obj_customMetadata = None \<rparr>])) = 0"
  by (simp add: get_api_releases_def get_api_stats_def bucket_list_def Let_def array_sort_def
        parseReleaseMetadata_def tags_of_def array_get_def initial_stats_def track_product_def
        object_get_def object_prototype_names_def product_count_sum_def counts_sum_def)

end
